theory Spec2Isabelle
  imports Complex_Main "HOL-Library.Signed_Division"
begin

section \<open>The simulation engine of r.futures.pga\<close>

text \<open>
  A shallow embedding of \<^verbatim>\<open>simulation.c\<close> and \<^verbatim>\<open>output.c\<close>.

  Conventions of the model:
  \<^item> C \<^verbatim>\<open>int\<close> and \<^verbatim>\<open>CELL\<close> values are HOL integers (cell counts and indices stay far
    from the machine range); a null \<^verbatim>\<open>CELL\<close> is \<open>None\<close>.
  \<^item> C \<^verbatim>\<open>float\<close>/\<^verbatim>\<open>double\<close> values are idealised to real numbers: rounding is not
    modelled. A division whose divisor is zero has no real result; the model reports it
    as the outcome \<open>NonFinite\<close> (the C code stores an infinity or a NaN and goes on).
  \<^item> An array of fixed length is a list, read through \<open>nth_chk\<close>; the growable
    per-region array of cells is a function from the index together with its
    capacity \<^verbatim>\<open>max[region]\<close>, exactly the two things the C code keeps. An access outside
    the allocated range is the outcome \<open>OutOfBounds\<close>.
  \<^item> The generator behind \<^verbatim>\<open>G_drand48\<close> is the stream of the values it will return.
\<close>

subsection \<open>Errors, arrays, the random generator\<close>

datatype error = OutOfBounds int | RangeError | NonFinite

text \<open>Sequencing of steps that may fail: the first failure ends the computation.\<close>

definition bind_e :: "error + 'a \<Rightarrow> ('a \<Rightarrow> error + 'b) \<Rightarrow> error + 'b" where
  "bind_e m f = (case m of Inl e \<Rightarrow> Inl e | Inr v \<Rightarrow> f v)"

definition nth_chk :: "'a list \<Rightarrow> int \<Rightarrow> error + 'a" where
  "nth_chk xs i =
     (if 0 \<le> i \<and> i < int (length xs) then Inr (xs ! nat i) else Inl (OutOfBounds i))"

definition upd_chk :: "'a list \<Rightarrow> int \<Rightarrow> 'a \<Rightarrow> error + 'a list" where
  "upd_chk xs i v =
     (if 0 \<le> i \<and> i < int (length xs) then Inr (xs[nat i := v]) else Inl (OutOfBounds i))"

text \<open>The C cast \<^verbatim>\<open>(int) x\<close> of a floating value truncates towards zero.\<close>

definition c_int_of_real :: "real \<Rightarrow> int" where
  "c_int_of_real x = (if 0 \<le> x then \<lfloor>x\<rfloor> else \<lceil>x\<rceil>)"

type_synonym rng = "nat \<Rightarrow> real"

definition G_drand48 :: "rng \<Rightarrow> real \<times> rng" where
  "G_drand48 g = (g 0, \<lambda>n. g (Suc n))"

text \<open>The generator that returns the same value at every draw, for the examples.\<close>

definition constant_draws :: "real \<Rightarrow> rng" where
  "constant_draws x = (\<lambda>n. x)"

subsection \<open>The undeveloped-cell index\<close>

text \<open>
  \<^verbatim>\<open>struct UndevelopedCell\<close> and \<^verbatim>\<open>struct Undeveloped\<close> (fields \<^verbatim>\<open>id\<close> and \<^verbatim>\<open>max\<close> are
  renamed \<open>cell_id\<close> and \<open>max_cap\<close>).
\<close>

record UndevelopedCell =
  cell_id :: int
  probability :: real
  cumulative_probability :: real
  tried :: bool

type_synonym cell_array = "int \<Rightarrow> UndevelopedCell"

record Undeveloped =
  max_subregions :: int
  max_cap :: "int list"
  num :: "int list"
  cells :: "cell_array list"

text \<open>Reading and writing \<^verbatim>\<open>cells[region][i]\<close> inside a region whose capacity is \<open>cap\<close>.\<close>

definition cell_at :: "cell_array \<Rightarrow> int \<Rightarrow> int \<Rightarrow> error + UndevelopedCell" where
  "cell_at cs cap i = (if 0 \<le> i \<and> i < cap then Inr (cs i) else Inl (OutOfBounds i))"

definition cell_put :: "cell_array \<Rightarrow> int \<Rightarrow> int \<Rightarrow> UndevelopedCell \<Rightarrow> error + cell_array" where
  "cell_put cs cap i c = (if 0 \<le> i \<and> i < cap then Inr (cs(i := c)) else Inl (OutOfBounds i))"

subsection \<open>Seed selection\<close>

text \<open>
  The \<^verbatim>\<open>while (first <= last)\<close> loop of \<^verbatim>\<open>find_probable_seed\<close> (the variables
  \<^verbatim>\<open>first\<close> and \<^verbatim>\<open>last\<close> are \<open>first_i\<close> and \<open>last_i\<close>). The C code keeps
  \<^verbatim>\<open>middle = (first + last) / 2\<close> at every loop test (it is set before the loop and at the
  end of the body), so the model computes it at the head of each iteration.
\<close>

function bisect :: "cell_array \<Rightarrow> int \<Rightarrow> real \<Rightarrow> int \<Rightarrow> int \<Rightarrow> error + int" where
  "bisect cs cap p first_i last_i =
     (if first_i \<le> last_i then
        (let middle = (first_i + last_i) sdiv 2 in
         case cell_at cs cap middle of
           Inl e \<Rightarrow> Inl e
         | Inr cm \<Rightarrow>
             if cumulative_probability cm < p then bisect cs cap p (middle + 1) last_i
             else (case cell_at cs cap (middle - 1) of
                     Inl e \<Rightarrow> Inl e
                   | Inr cm1 \<Rightarrow>
                       if cumulative_probability cm1 < p \<and> cumulative_probability cm \<ge> p
                       then Inr middle
                       else bisect cs cap p first_i (middle - 1)))
      else Inr 0)"
  by pat_completeness auto
termination
proof (relation "measure (\<lambda>(cs, cap, p, first_i, last_i). nat (last_i - first_i + 1))")
  show "wf (measure (\<lambda>(cs, cap, p, first_i, last_i). nat (last_i - first_i + 1)))"
    by simp
next
  fix cs :: cell_array and cap :: int and p :: real and first_i last_i middle :: int
  assume "first_i \<le> last_i" and "middle = (first_i + last_i) sdiv 2"
  then show "((cs, cap, p, middle + 1, last_i), (cs, cap, p, first_i, last_i))
      \<in> measure (\<lambda>(cs, cap, p, first_i, last_i). nat (last_i - first_i + 1))"
    by (auto simp: signed_divide_int_def sgn_if abs_if)
next
  fix cs :: cell_array and cap :: int and p :: real and first_i last_i middle :: int
  assume "first_i \<le> last_i" and "middle = (first_i + last_i) sdiv 2"
  then show "((cs, cap, p, first_i, middle - 1), (cs, cap, p, first_i, last_i))
      \<in> measure (\<lambda>(cs, cap, p, first_i, last_i). nat (last_i - first_i + 1))"
    by (auto simp: signed_divide_int_def sgn_if abs_if)
qed

declare bisect.simps [simp del]

text \<open>\<^verbatim>\<open>find_probable_seed\<close>: the draw, the two edge tests, then the bisection.\<close>

definition find_probable_seed :: "Undeveloped \<Rightarrow> int \<Rightarrow> rng \<Rightarrow> (error + int) \<times> rng" where
  "find_probable_seed undev_cells region g =
     (let (p, g') = G_drand48 g in
      (bind_e (nth_chk (num undev_cells) region) (\<lambda>n.
       bind_e (nth_chk (cells undev_cells) region) (\<lambda>cs.
       bind_e (nth_chk (max_cap undev_cells) region) (\<lambda>cap.
         let first_i = 0; last_i = n - 1 in
         bind_e (cell_at cs cap first_i) (\<lambda>cf.
           if p \<le> cumulative_probability cf then Inr 0
           else bind_e (cell_at cs cap last_i) (\<lambda>cl.
             if p \<ge> cumulative_probability cl then Inr last_i
             else bisect cs cap p first_i last_i))))),
       g'))"

text \<open>
  \<^verbatim>\<open>enum seed_search\<close>: the code names \<^verbatim>\<open>RANDOM\<close> and treats every other value alike;
  the declaration is not part of the sources at hand, and the other method is called
  \<open>PROBABILITY\<close> here.
\<close>

datatype seed_search = RANDOM | PROBABILITY

text \<open>
  \<^verbatim>\<open>get_seed\<close>. The decoding \<^verbatim>\<open>get_xy_from_idx\<close> of a cell id and the number of columns
  \<^verbatim>\<open>Rast_window_cols()\<close> are not part of the sources at hand and are parameters.
  The result is the returned list index with the row and column written through the
  two pointers.
\<close>

definition get_seed ::
  "(int \<Rightarrow> int \<Rightarrow> int \<times> int) \<Rightarrow> int \<Rightarrow> Undeveloped \<Rightarrow> int \<Rightarrow> seed_search \<Rightarrow> rng
     \<Rightarrow> (error + int \<times> int \<times> int) \<times> rng" where
  "get_seed get_xy_from_idx window_cols undev_cells region_idx method g =
     (let (ri, g') =
        (if method = RANDOM then
           (let (u, g1) = G_drand48 g in
            (bind_e (nth_chk (max_cap undev_cells) region_idx) (\<lambda>m.
               Inr (c_int_of_real (u * real_of_int m))), g1))
         else find_probable_seed undev_cells region_idx g)
      in (bind_e ri (\<lambda>i.
          bind_e (nth_chk (cells undev_cells) region_idx) (\<lambda>cs.
          bind_e (nth_chk (max_cap undev_cells) region_idx) (\<lambda>cap.
          bind_e (cell_at cs cap i) (\<lambda>c.
            let (row, col) = get_xy_from_idx (cell_id c) window_cols
            in Inr (i, row, col))))), g'))"

subsection \<open>The potential model\<close>

text \<open>
  \<^verbatim>\<open>struct Segments\<close> holds the raster layers; a layer is a function of row and column
  (\<^verbatim>\<open>Segment_get\<close> is application, \<^verbatim>\<open>Segment_put\<close> is update). Its fields carry the
  prefix \<open>seg_\<close>, since \<^verbatim>\<open>struct Potential\<close> has fields of the same names. The predictor
  layer holds, for each cell, the values that \<^verbatim>\<open>Segment_get\<close> copies into the buffer
  \<^verbatim>\<open>values\<close>.
\<close>

record Segments =
  seg_developed :: "int \<Rightarrow> int \<Rightarrow> int option"
  seg_subregions :: "int \<Rightarrow> int \<Rightarrow> int option"
  seg_devpressure :: "int \<Rightarrow> int \<Rightarrow> real"
  seg_predictors :: "int \<Rightarrow> int \<Rightarrow> real list"
  seg_probability :: "int \<Rightarrow> int \<Rightarrow> real"
  use_weight :: bool
  seg_weight :: "int \<Rightarrow> int \<Rightarrow> real"

record Potential =
  intercept :: "real list"
  devpressure :: "real list"
  predictors :: "real list list"
  max_predictors :: int
  incentive_transform :: "real list option"
  incentive_transform_size :: int

text \<open>The loop \<^verbatim>\<open>for (i = 0; i < max_predictors; i++)\<close> of \<^verbatim>\<open>get_develop_probability_xy\<close>.\<close>

function predictor_loop :: "Potential \<Rightarrow> int \<Rightarrow> real list \<Rightarrow> int \<Rightarrow> real \<Rightarrow> error + real" where
  "predictor_loop potential_info region_index vals i prob =
     (if i < max_predictors potential_info then
        bind_e (nth_chk (predictors potential_info) i) (\<lambda>coefs.
        bind_e (nth_chk coefs region_index) (\<lambda>coef.
        bind_e (nth_chk vals i) (\<lambda>v.
          predictor_loop potential_info region_index vals (i + 1) (prob + coef * v))))
      else Inr prob)"
  by pat_completeness auto
termination
  by (relation "measure (\<lambda>(potential_info, region_index, vals, i, prob).
        nat (max_predictors potential_info - i))") auto

declare predictor_loop.simps [simp del]

definition get_develop_probability_xy ::
  "Segments \<Rightarrow> Potential \<Rightarrow> int \<Rightarrow> int \<Rightarrow> int \<Rightarrow> error + real" where
  "get_develop_probability_xy segments potential_info region_index row col =
     (let devpressure_val = seg_devpressure segments row col;
          vals = seg_predictors segments row col in
      bind_e (nth_chk (intercept potential_info) region_index) (\<lambda>probability.
      bind_e (nth_chk (devpressure potential_info) region_index) (\<lambda>dcoef.
      bind_e (predictor_loop potential_info region_index vals 0
                (probability + dcoef * devpressure_val)) (\<lambda>probability.
        let probability = 1 / (1 + exp (- probability)) in
        bind_e (case incentive_transform potential_info of
                  None \<Rightarrow> Inr probability
                | Some tbl \<Rightarrow>
                    (let transformed_idx = c_int_of_real
                           (probability * real_of_int (incentive_transform_size potential_info - 1))
                     in if transformed_idx \<ge> incentive_transform_size potential_info
                           \<or> transformed_idx < 0
                        then Inl RangeError
                        else nth_chk tbl transformed_idx)) (\<lambda>probability.
          if use_weight segments then
            (let weight = seg_weight segments row col in
             if weight < 0 then Inr (probability * \<bar>weight\<bar>)
             else if weight > 0 then Inr (probability + weight - probability * weight)
             else Inr probability)
          else Inr probability)))))"

text \<open>
  \<^verbatim>\<open>pow\<close> on a non-negative base, and \<^verbatim>\<open>initialize_incentive\<close> of \<^verbatim>\<open>inputs.c\<close>, which
  fills a table of 1001 entries with \<^verbatim>\<open>pow(i * step, exponent)\<close>. The value of
  \<^verbatim>\<open>pow(0, e)\<close> is 0 for a positive exponent, 1 for the exponent 0 and infinite for a
  negative one (the outcome \<open>NonFinite\<close>).
\<close>

definition c_pow :: "real \<Rightarrow> real \<Rightarrow> error + real" where
  "c_pow x e =
     (if x = 0 then (if e > 0 then Inr 0 else if e = 0 then Inr 1 else Inl NonFinite)
      else Inr (x powr e))"

fun mapE :: "('a \<Rightarrow> error + 'b) \<Rightarrow> 'a list \<Rightarrow> error + 'b list" where
  "mapE f [] = Inr []"
| "mapE f (x # xs) = bind_e (f x) (\<lambda>y. bind_e (mapE f xs) (\<lambda>ys. Inr (y # ys)))"

definition initialize_incentive :: "Potential \<Rightarrow> real \<Rightarrow> error + Potential" where
  "initialize_incentive potential_info exponent =
     (let size = 1001; step = 1 / real_of_int (size - 1) in
      bind_e (mapE (\<lambda>i. c_pow (real i * step) exponent) [0..<nat size]) (\<lambda>tbl.
        Inr (potential_info\<lparr>incentive_transform := Some tbl,
                            incentive_transform_size := size\<rparr>)))"


subsection \<open>Rebuilding the index\<close>

fun foldE :: "('a \<Rightarrow> 's \<Rightarrow> error + 's) \<Rightarrow> 'a list \<Rightarrow> 's \<Rightarrow> error + 's" where
  "foldE f [] s = Inr s"
| "foldE f (x # xs) s = bind_e (f x s) (foldE f xs)"

text \<open>
  The body of the scan of \<^verbatim>\<open>recompute_probabilities\<close> for one cell. The encoding
  \<^verbatim>\<open>get_idx_from_xy\<close> is not part of the sources at hand and is a parameter.
  \<^verbatim>\<open>G_realloc\<close> keeps the old entries and leaves the new ones as they are: only the
  capacity changes.
\<close>

definition scan_cell ::
  "(int \<Rightarrow> int \<Rightarrow> int \<Rightarrow> int) \<Rightarrow> Potential \<Rightarrow> int \<Rightarrow> int \<Rightarrow> int
     \<Rightarrow> Undeveloped \<times> Segments \<Rightarrow> error + Undeveloped \<times> Segments" where
  "scan_cell get_idx_from_xy potential_info cols row col st =
     (let (u, segments) = st in
      case seg_developed segments row col of
        None \<Rightarrow> Inr st
      | Some developed \<Rightarrow>
          if developed \<noteq> - 1 then Inr st
          else (case seg_subregions segments row col of
                  None \<Rightarrow> Inr st
                | Some region \<Rightarrow>
                    bind_e (nth_chk (num u) region) (\<lambda>n.
                    bind_e (nth_chk (max_cap u) region) (\<lambda>m.
                    bind_e (if n \<ge> m then upd_chk (max_cap u) region (2 * m)
                            else Inr (max_cap u)) (\<lambda>max_cap'.
                    bind_e (nth_chk max_cap' region) (\<lambda>cap.
                    bind_e (nth_chk (cells u) region) (\<lambda>cs.
                      let ident = get_idx_from_xy row col cols; idx = n in
                      bind_e (cell_put cs cap idx ((cs idx)\<lparr>cell_id := ident, tried := False\<rparr>))
                        (\<lambda>cs1.
                      bind_e (get_develop_probability_xy segments potential_info region row col)
                        (\<lambda>probability'.
                      let segments' = segments\<lparr>seg_probability :=
                            (seg_probability segments)(row := (seg_probability segments row)
                               (col := probability'))\<rparr> in
                      bind_e (cell_put cs1 cap idx ((cs1 idx)\<lparr>probability := probability'\<rparr>))
                        (\<lambda>cs2.
                      bind_e (upd_chk (cells u) region cs2) (\<lambda>cells'.
                      bind_e (upd_chk (num u) region (n + 1)) (\<lambda>num'.
                        Inr (u\<lparr>max_cap := max_cap', num := num', cells := cells'\<rparr>,
                             segments')))))))))))))"

text \<open>The three loops of the normalisation phase (lines 169 to 181) for one region.\<close>

function cum_loop :: "cell_array \<Rightarrow> int \<Rightarrow> int \<Rightarrow> int \<Rightarrow> error + cell_array \<times> int" where
  "cum_loop cs cap n i =
     (if i < n then
        bind_e (cell_at cs cap i) (\<lambda>c.
        bind_e (cell_at cs cap (i - 1)) (\<lambda>cprev.
        bind_e (cell_put cs cap i
                  (c\<lparr>cumulative_probability := cumulative_probability cprev + probability c\<rparr>))
          (\<lambda>cs'. cum_loop cs' cap n (i + 1))))
      else Inr (cs, i))"
  by pat_completeness auto
termination
  by (relation "measure (\<lambda>(cs, cap, n, i). nat (n - i))") auto

declare cum_loop.simps [simp del]

function div_loop :: "cell_array \<Rightarrow> int \<Rightarrow> int \<Rightarrow> real \<Rightarrow> int \<Rightarrow> error + cell_array" where
  "div_loop cs cap n sum_v i =
     (if i < n then
        bind_e (cell_at cs cap i) (\<lambda>c.
          if sum_v = 0 then Inl NonFinite
          else bind_e (cell_put cs cap i
                         (c\<lparr>cumulative_probability := cumulative_probability c / sum_v\<rparr>))
                 (\<lambda>cs'. div_loop cs' cap n sum_v (i + 1)))
      else Inr cs)"
  by pat_completeness auto
termination
  by (relation "measure (\<lambda>(cs, cap, n, sum_v, i). nat (n - i))") auto

declare div_loop.simps [simp del]

definition normalize_region :: "int \<Rightarrow> Undeveloped \<Rightarrow> error + Undeveloped" where
  "normalize_region region_idx u =
     bind_e (nth_chk (cells u) region_idx) (\<lambda>cs.
     bind_e (nth_chk (max_cap u) region_idx) (\<lambda>cap.
     bind_e (nth_chk (num u) region_idx) (\<lambda>n.
     bind_e (cell_at cs cap 0) (\<lambda>c0.
     bind_e (cell_put cs cap 0 (c0\<lparr>cumulative_probability := probability c0\<rparr>)) (\<lambda>cs1.
     bind_e (cum_loop cs1 cap n 1) (\<lambda>(cs2, i).
     bind_e (cell_at cs2 cap (i - 1)) (\<lambda>cl.
       let sum_v = cumulative_probability cl in
       bind_e (div_loop cs2 cap n sum_v 0) (\<lambda>cs3.
       bind_e (upd_chk (cells u) region_idx cs3) (\<lambda>cells'.
         Inr (u\<lparr>cells := cells'\<rparr>))))))))))"

definition recompute_probabilities ::
  "(int \<Rightarrow> int \<Rightarrow> int \<Rightarrow> int) \<Rightarrow> int \<Rightarrow> int \<Rightarrow> Undeveloped \<Rightarrow> Segments \<Rightarrow> Potential
     \<Rightarrow> error + Undeveloped \<times> Segments" where
  "recompute_probabilities get_idx_from_xy rows cols undeveloped_cells segments potential_info =
     (let regions = map int [0..<nat (max_subregions undeveloped_cells)] in
      bind_e (foldE (\<lambda>region_idx nums. upd_chk nums region_idx 0) regions
                (num undeveloped_cells)) (\<lambda>num0.
      bind_e (foldE (\<lambda>row. foldE (scan_cell get_idx_from_xy potential_info cols row)
                               (map int [0..<nat cols]))
                (map int [0..<nat rows])
                (undeveloped_cells\<lparr>num := num0\<rparr>, segments)) (\<lambda>(u, segments').
      bind_e (foldE normalize_region regions u) (\<lambda>u'.
        Inr (u', segments')))))"

subsection \<open>One step for one region\<close>

text \<open>
  \<^verbatim>\<open>compute_step\<close>. The demand table is \<^verbatim>\<open>demand->table[region][step]\<close>.
\<close>

record Demand =
  table :: "int list list"

text \<open>
  The functions and constants that \<^verbatim>\<open>compute_step\<close> uses and that are not part of the
  sources at hand are parameters, collected in a record. The patch sizes, the patch
  information and the pressure kernel are arguments of these functions only and are part
  of them here. \<^verbatim>\<open>get_patch_size\<close> and \<^verbatim>\<open>grow_patch\<close> may draw from the generator;
  \<^verbatim>\<open>grow_patch\<close> returns the number \<^verbatim>\<open>found\<close> with the buffer \<^verbatim>\<open>added_ids\<close> and the changed
  layers.
\<close>

record helpers =
  get_xy_from_idx :: "int \<Rightarrow> int \<Rightarrow> int \<times> int"
  Rast_window_cols :: int
  MAX_SEED_ITER :: int
  get_patch_size :: "rng \<Rightarrow> int \<times> rng"
  grow_patch :: "int \<Rightarrow> int \<Rightarrow> int \<Rightarrow> int \<Rightarrow> Segments \<Rightarrow> rng \<Rightarrow> (int \<times> int list) \<times> Segments \<times> rng"
  update_development_pressure_precomputed :: "int \<Rightarrow> int \<Rightarrow> Segments \<Rightarrow> Segments"

text \<open>What the loop of \<^verbatim>\<open>compute_step\<close> changes: the index (its \<^verbatim>\<open>tried\<close> flags), the
  layers, the generator and three local variables.\<close>

record step_state =
  undev_cells :: Undeveloped
  segments :: Segments
  gen :: rng
  n_done :: int
  unsuccessful_tries :: int
  allow_already_tried_ones :: bool

text \<open>
  Lines 254 to 269: the probability challenge, skipped under \<^verbatim>\<open>force_convert_all\<close> (the
  \<^verbatim>\<open>||\<close> of C does not evaluate \<^verbatim>\<open>G_drand48()\<close> then), the growth of the patch and the
  update of the development pressure for each added cell.
\<close>

definition challenge_and_grow ::
  "helpers \<Rightarrow> int \<Rightarrow> bool \<Rightarrow> int \<Rightarrow> int \<Rightarrow> step_state \<Rightarrow> error + step_state" where
  "challenge_and_grow H step force_convert_all seed_row seed_col s =
     (let prob = seg_probability (segments s) seed_row seed_col;
          (accept, g2) =
            (if force_convert_all then (True, gen s)
             else (let (u, g') = G_drand48 (gen s) in (u < prob, g')))
      in if accept then
           (let (patch_size, g3) = get_patch_size H g2;
                ((found, added_ids), segments', g4) =
                   grow_patch H seed_row seed_col patch_size step (segments s) g3
            in bind_e (foldE (\<lambda>i sg.
                         bind_e (nth_chk added_ids i) (\<lambda>ident.
                           let (row, col) = get_xy_from_idx H ident (Rast_window_cols H)
                           in Inr (update_development_pressure_precomputed H row col sg)))
                       (map int [0..<nat found]) segments')
                 (\<lambda>segments''.
                    Inr (s\<lparr>segments := segments'', gen := g4, n_done := n_done s + found\<rparr>)))
         else Inr (s\<lparr>gen := g2\<rparr>))"

text \<open>Lines 235 to 253 and the call of the part above: one iteration of the loop.\<close>

definition step_body ::
  "helpers \<Rightarrow> seed_search \<Rightarrow> int \<Rightarrow> int \<Rightarrow> int \<Rightarrow> bool \<Rightarrow> step_state \<Rightarrow> error + step_state" where
  "step_body H search_alg step region n_to_convert force_convert_all s0 =
     (let s1 = (if \<not> allow_already_tried_ones s0
                   \<and> unsuccessful_tries s0 > MAX_SEED_ITER H * n_to_convert
                then s0\<lparr>allow_already_tried_ones := True\<rparr> else s0);
          (seed, g1) = get_seed (get_xy_from_idx H) (Rast_window_cols H) (undev_cells s1) region
                         search_alg (gen s1);
          s = s1\<lparr>gen := g1\<rparr>
      in bind_e seed (\<lambda>(idx, seed_row, seed_col).
         bind_e (nth_chk (cells (undev_cells s)) region) (\<lambda>cs.
         bind_e (nth_chk (max_cap (undev_cells s)) region) (\<lambda>cap.
         bind_e (cell_at cs cap idx) (\<lambda>c.
           if \<not> allow_already_tried_ones s \<and> tried c
           then Inr (s\<lparr>unsuccessful_tries := unsuccessful_tries s + 1\<rparr>)
           else
             bind_e (cell_put cs cap idx (c\<lparr>tried := True\<rparr>)) (\<lambda>cs'.
             bind_e (upd_chk (cells (undev_cells s)) region cs') (\<lambda>cells'.
               let s' = s\<lparr>undev_cells := (undev_cells s)\<lparr>cells := cells'\<rparr>\<rparr>;
                   developed = seg_developed (segments s') seed_row seed_col
               in if developed \<noteq> Some (- 1)
                  then Inr (s'\<lparr>unsuccessful_tries := unsuccessful_tries s' + 1\<rparr>)
                  else challenge_and_grow H step force_convert_all seed_row seed_col s')))))))"

text \<open>
  The loop \<^verbatim>\<open>while (n_done < n_to_convert)\<close>. It may run forever: the result \<open>None\<close>
  stands for that.
\<close>

partial_function (option) step_loop ::
  "helpers \<Rightarrow> seed_search \<Rightarrow> int \<Rightarrow> int \<Rightarrow> int \<Rightarrow> bool \<Rightarrow> step_state \<Rightarrow> (error + step_state) option" where
  "step_loop H search_alg step region n_to_convert force_convert_all s =
     (if n_done s < n_to_convert then
        (case step_body H search_alg step region n_to_convert force_convert_all s of
           Inl e \<Rightarrow> Some (Inl e)
         | Inr s' \<Rightarrow> step_loop H search_alg step region n_to_convert force_convert_all s')
      else Some (Inr s))"

text \<open>
  What \<^verbatim>\<open>compute_step\<close> leaves behind: the changed structures, the overflow array, the
  arguments of each \<^verbatim>\<open>G_warning\<close> (region, requested, available), and, for stating
  properties, the final values of the locals \<^verbatim>\<open>n_to_convert\<close>, \<^verbatim>\<open>n_done\<close> and
  \<^verbatim>\<open>force_convert_all\<close>.
\<close>

record step_result =
  res_undev_cells :: Undeveloped
  res_segments :: Segments
  res_gen :: rng
  res_patch_overflow :: "int list"
  res_warnings :: "(int \<times> int \<times> int) list"
  res_n_to_convert :: int
  res_n_done :: int
  res_force_convert_all :: bool

definition compute_step ::
  "helpers \<Rightarrow> Undeveloped \<Rightarrow> Demand \<Rightarrow> seed_search \<Rightarrow> Segments \<Rightarrow> int list \<Rightarrow> int \<Rightarrow> int \<Rightarrow> rng
     \<Rightarrow> (error + step_result) option" where
  "compute_step H undev_cells0 demand search_alg segments0 patch_overflow step region g =
     (case
        bind_e (nth_chk (table demand) region) (\<lambda>demand_row.
        bind_e (nth_chk demand_row step) (\<lambda>n_to_convert.
        bind_e (nth_chk patch_overflow region) (\<lambda>extra.
          let (n_to_convert, extra) =
                (if extra > 0 then
                   (if n_to_convert - extra > 0 then (n_to_convert - extra, 0)
                    else (0, extra - n_to_convert))
                 else (n_to_convert, extra))
          in bind_e (nth_chk (num undev_cells0) region) (\<lambda>available.
               Inr (if n_to_convert > available
                    then (available, extra, True, [(region, n_to_convert, available)])
                    else (n_to_convert, extra, False, []))))))
      of
        Inl e \<Rightarrow> Some (Inl e)
      | Inr (n_to_convert, extra, force_convert_all, warnings) \<Rightarrow>
          (case step_loop H search_alg step region n_to_convert force_convert_all
                  \<lparr>undev_cells = undev_cells0, segments = segments0, gen = g, n_done = 0,
                   unsuccessful_tries = 0, allow_already_tried_ones = False\<rparr>
           of
             None \<Rightarrow> None
           | Some (Inl e) \<Rightarrow> Some (Inl e)
           | Some (Inr s) \<Rightarrow>
               (let extra = extra + (n_done s - n_to_convert)
                in case upd_chk patch_overflow region extra of
                     Inl e \<Rightarrow> Some (Inl e)
                   | Inr patch_overflow' \<Rightarrow>
                       Some (Inr \<lparr>res_undev_cells = undev_cells s, res_segments = segments s,
                                  res_gen = gen s, res_patch_overflow = patch_overflow',
                                  res_warnings = warnings, res_n_to_convert = n_to_convert,
                                  res_n_done = n_done s,
                                  res_force_convert_all = force_convert_all\<rparr>))))"

subsection \<open>Writing a snapshot\<close>

text \<open>
  The raster written by \<^verbatim>\<open>output_developed_step\<close>, row by row; the colour table and
  the history are left out. The row buffer starts as nulls and the body of the inner loop
  either leaves a cell (\<^verbatim>\<open>continue\<close>) or stores a value.
\<close>

definition output_cell_step ::
  "(int \<Rightarrow> int \<Rightarrow> int option) \<Rightarrow> bool \<Rightarrow> bool \<Rightarrow> int \<Rightarrow> nat \<Rightarrow> int option list
     \<Rightarrow> int option list" where
  "output_cell_step developed_segment undeveloped_as_null developed_as_one row col out_row =
     (case developed_segment row (int col) of
        None \<Rightarrow> out_row
      | Some developed \<Rightarrow>
          if undeveloped_as_null \<and> developed = - 1 then out_row
          else (let developed = (if developed_as_one then 1 else developed)
                in out_row[col := Some developed]))"

definition output_developed_step ::
  "(int \<Rightarrow> int \<Rightarrow> int option) \<Rightarrow> int \<Rightarrow> int \<Rightarrow> bool \<Rightarrow> bool \<Rightarrow> int option list list" where
  "output_developed_step developed_segment rows cols undeveloped_as_null developed_as_one =
     map (\<lambda>row. fold (output_cell_step developed_segment undeveloped_as_null developed_as_one
                        (int row))
                  [0..<nat cols] (replicate (nat cols) None))
         [0..<nat rows]"

text \<open>
  The value found in a cell of the row buffer after the body of the loop has run on it,
  \<open>old\<close> being the value before.
\<close>

definition written :: "int option \<Rightarrow> bool \<Rightarrow> bool \<Rightarrow> int option \<Rightarrow> int option" where
  "written old u d x =
     (case x of None \<Rightarrow> old
      | Some v \<Rightarrow> if u \<and> v = - 1 then old else Some (if d then 1 else v))"

subsection \<open>Concrete data used by the examples\<close>

text \<open>
  \<open>cum_list cs n\<close> lists the cumulative probabilities of the first \<open>n\<close> entries;
  \<open>array_of\<close> lays a list out as an array, and \<open>row_major\<close> is the usual row-major
  decoding, taken as the instance of the parameter \<^verbatim>\<open>get_xy_from_idx\<close> in the examples.
\<close>

abbreviation cum :: "cell_array \<Rightarrow> int \<Rightarrow> real" where
  "cum cs i \<equiv> cumulative_probability (cs i)"

definition cum_list :: "cell_array \<Rightarrow> int \<Rightarrow> real list" where
  "cum_list cs n = map (\<lambda>i. cumulative_probability (cs (int i))) [0..<nat n]"

definition array_of :: "UndevelopedCell list \<Rightarrow> cell_array" where
  "array_of xs = (\<lambda>i. xs ! nat i)"

definition cell :: "int \<Rightarrow> real \<Rightarrow> real \<Rightarrow> UndevelopedCell" where
  "cell i pr c = \<lparr>cell_id = i, probability = pr, cumulative_probability = c, tried = False\<rparr>"

definition row_major :: "int \<Rightarrow> int \<Rightarrow> int \<times> int" where
  "row_major i cols = (i div cols, i mod cols)"

text \<open>A region of three cells with probabilities 0.2, 0.3, 0.5 in an array of capacity 4.\<close>

definition example_index :: Undeveloped where
  "example_index = \<lparr>max_subregions = 1, max_cap = [4], num = [3],
      cells = [array_of [cell 10 0.2 0.2, cell 11 0.3 0.5, cell 12 0.5 1.0, cell 0 0 0]]\<rparr>"

text \<open>A region with one undeveloped cell in an array of capacity 4.\<close>

definition stale_index :: Undeveloped where
  "stale_index = \<lparr>max_subregions = 1, max_cap = [4], num = [1],
      cells = [array_of [cell 10 1 1, cell 21 0 0, cell 32 0 0, cell 43 0 0]]\<rparr>"

text \<open>
  The overflow reconciliation in the words of the specification: a positive carried
  overflow \<open>e\<close> is subtracted from the demand \<open>d\<close> as far as possible. The result is the
  pair of the requested amount, floored at 0, and the overflow that was not consumed.
\<close>

definition reconciled :: "int \<Rightarrow> int \<Rightarrow> int \<times> int" where
  "reconciled d e = (if e > 0 then (max 0 (d - e), max 0 (e - d)) else (d, e))"

text \<open>
  Instances of the parameters for the examples, on a grid with two columns:
  \<open>seed_only_helpers\<close> grows every patch to the seed cell alone, \<open>pair_helpers\<close> grows
  every patch to the two cells 0 and 1 of the first row. Both record the step in the
  developed layer and leave the pressure layer alone.
\<close>

definition set_developed :: "Segments \<Rightarrow> int \<Rightarrow> int \<Rightarrow> int \<Rightarrow> Segments" where
  "set_developed sg row col v =
     sg\<lparr>seg_developed := (seg_developed sg)(row := (seg_developed sg row)(col := Some v))\<rparr>"


definition pair_helpers :: helpers where
  "pair_helpers = \<lparr>get_xy_from_idx = row_major, Rast_window_cols = 2, MAX_SEED_ITER = 20,
     get_patch_size = (\<lambda>g. (2, g)),
     grow_patch = (\<lambda>seed_row seed_col patch_size step sg g.
        ((2, [0, 1]), set_developed (set_developed sg 0 0 step) 0 1 step, g)),
     update_development_pressure_precomputed = (\<lambda>row col sg. sg)\<rparr>"

text \<open>
  Layers for the examples: \<open>open_land\<close> is undeveloped everywhere, with stored
  probability 1/2 and no predictors; \<open>developed_land\<close> is developed everywhere since
  step 0; \<open>weighted_land\<close> has pressure 1, one predictor of value 3 and the weight 1/2.
  Indexes: \<open>two_cells\<close> lists the cells 0 and 1, \<open>one_cell\<close> lists the cell 0 alone
  (probability 1/2, normalised to the cumulative probability 1), \<open>fresh_index\<close> is an
  empty index of capacity 1. \<open>idx_of_xy\<close> is the row-major encoding, the instance of
  the parameter \<^verbatim>\<open>get_idx_from_xy\<close>. \<open>flat_potential\<close> has the intercept -10 and no
  other term; \<open>small_potential\<close> has one predictor and a table of three entries.
\<close>

definition open_land :: Segments where
  "open_land = \<lparr>seg_developed = (\<lambda>row col. Some (- 1)), seg_subregions = (\<lambda>row col. Some 0),
     seg_devpressure = (\<lambda>row col. 0), seg_predictors = (\<lambda>row col. []),
     seg_probability = (\<lambda>row col. 1 / 2), use_weight = False, seg_weight = (\<lambda>row col. 0)\<rparr>"

definition two_cells :: Undeveloped where
  "two_cells = \<lparr>max_subregions = 1, max_cap = [2], num = [2],
      cells = [array_of [cell 0 (1 / 2) (1 / 2), cell 1 (1 / 2) 1]]\<rparr>"

definition developed_land :: Segments where
  "developed_land = \<lparr>seg_developed = (\<lambda>row col. Some 0), seg_subregions = (\<lambda>row col. Some 0),
     seg_devpressure = (\<lambda>row col. 0), seg_predictors = (\<lambda>row col. []),
     seg_probability = (\<lambda>row col. 1 / 2), use_weight = False, seg_weight = (\<lambda>row col. 0)\<rparr>"

definition one_cell :: Undeveloped where
  "one_cell = \<lparr>max_subregions = 1, max_cap = [1], num = [1], cells = [array_of [cell 0 (1 / 2) 1]]\<rparr>"

definition idx_of_xy :: "int \<Rightarrow> int \<Rightarrow> int \<Rightarrow> int" where
  "idx_of_xy row col cols = row * cols + col"

definition flat_potential :: Potential where
  "flat_potential = \<lparr>intercept = [- 10], devpressure = [0], predictors = [], max_predictors = 0,
     incentive_transform = None, incentive_transform_size = 0\<rparr>"

definition fresh_index :: Undeveloped where
  "fresh_index = \<lparr>max_subregions = 1, max_cap = [1], num = [0], cells = [array_of [cell 0 0 0]]\<rparr>"



section \<open>Properties\<close>

subsection \<open>Bisection\<close>

lemma sdiv2_nonneg: "0 \<le> (a::int) \<Longrightarrow> a sdiv 2 = a div 2"
  by (simp add: signed_divide_int_def sgn_if)

lemma bisect_finds:
  "0 \<le> first_i \<Longrightarrow> first_i \<le> last_i \<Longrightarrow> last_i < cap \<Longrightarrow>
   cum cs 0 < p \<Longrightarrow> (1 \<le> first_i \<longrightarrow> cum cs (first_i - 1) < p) \<Longrightarrow> p \<le> cum cs last_i \<Longrightarrow>
   \<exists>i. bisect cs cap p first_i last_i = Inr i \<and> first_i \<le> i \<and> i \<le> last_i \<and> 1 \<le> i \<and>
       cum cs (i - 1) < p \<and> p \<le> cum cs i"
proof (induction cs cap p first_i last_i rule: bisect.induct)
  case (1 cs cap p first_i last_i)
  define middle where "middle = (first_i + last_i) sdiv 2"
  have mid: "middle = (first_i + last_i) div 2"
    unfolding middle_def using "1.prems" by (simp add: sdiv2_nonneg)
  have mid_rng: "first_i \<le> middle" "middle \<le> last_i"
    using mid "1.prems" by auto
  have rd: "cell_at cs cap middle = Inr (cs middle)"
    using mid_rng "1.prems" by (simp add: cell_at_def)
  show ?case
  proof (cases "cum cs middle < p")
    case True
    then have lt: "middle < last_i"
      using "1.prems" mid_rng by (cases "middle = last_i") auto
    have "\<exists>i. bisect cs cap p (middle + 1) last_i = Inr i \<and> middle + 1 \<le> i \<and> i \<le> last_i \<and> 1 \<le> i \<and>
       cum cs (i - 1) < p \<and> p \<le> cum cs i"
      using "1.IH"(1)[OF _ middle_def rd True] "1.prems" mid_rng lt True by simp
    then obtain i where i: "bisect cs cap p (middle + 1) last_i = Inr i" "middle + 1 \<le> i" "i \<le> last_i" "1 \<le> i"
       "cum cs (i - 1) < p" "p \<le> cum cs i" by blast
    have "bisect cs cap p first_i last_i = Inr i"
      using "1.prems" rd True i(1) by (subst bisect.simps) (simp add: middle_def[symmetric])
    then show ?thesis using i mid_rng by auto
  next
    case False
    then have m1: "1 \<le> middle"
      using "1.prems" mid_rng by (cases "middle = 0") auto
    have rd1: "cell_at cs cap (middle - 1) = Inr (cs (middle - 1))"
      using m1 mid_rng "1.prems" by (simp add: cell_at_def)
    show ?thesis
    proof (cases "cum cs (middle - 1) < p")
      case True
      have "bisect cs cap p first_i last_i = Inr middle"
        using "1.prems" rd rd1 True False by (subst bisect.simps) (simp add: middle_def[symmetric])
      then show ?thesis using mid_rng m1 True False by auto
    next
      case F2: False
      have gt: "first_i < middle"
        using "1.prems" mid_rng F2 m1 by (cases "middle = first_i") auto
      have "\<exists>i. bisect cs cap p first_i (middle - 1) = Inr i \<and> first_i \<le> i \<and> i \<le> middle - 1 \<and> 1 \<le> i \<and>
       cum cs (i - 1) < p \<and> p \<le> cum cs i"
        using "1.IH"(2)[OF _ middle_def rd False rd1] "1.prems" mid_rng gt F2 False by simp
      then obtain i where i: "bisect cs cap p first_i (middle - 1) = Inr i" "first_i \<le> i" "i \<le> middle - 1" "1 \<le> i"
       "cum cs (i - 1) < p" "p \<le> cum cs i" by blast
      have "bisect cs cap p first_i last_i = Inr i"
        using "1.prems" rd rd1 False F2 i(1) by (subst bisect.simps) (simp add: middle_def[symmetric])
      then show ?thesis using i mid_rng by auto
    qed
  qed
qed


lemma sorted_cum_list:
  "sorted (cum_list cs n) \<Longrightarrow> 0 \<le> i \<Longrightarrow> i \<le> j \<Longrightarrow> j < n \<Longrightarrow>
   cumulative_probability (cs i) \<le> cumulative_probability (cs j)"
proof -
  assume s: "sorted (cum_list cs n)" and ij: "0 \<le> i" "i \<le> j" "j < n"
  have len: "length (cum_list cs n) = nat n" using ij by (simp add: cum_list_def)
  have nth: "\<And>k. 0 \<le> k \<Longrightarrow> k < n \<Longrightarrow> cum_list cs n ! nat k = cumulative_probability (cs k)"
    by (simp add: cum_list_def nat_less_iff)
  have "cum_list cs n ! nat i \<le> cum_list cs n ! nat j"
    using s ij len by (intro sorted_nth_mono) auto
  then show ?thesis using nth ij by simp
qed

lemma bisect_in_range:
  "0 \<le> first_i \<Longrightarrow> last_i < cap \<Longrightarrow> cum cs 0 < p \<Longrightarrow>
   \<exists>i. bisect cs cap p first_i last_i = Inr i \<and> (i = 0 \<or> first_i \<le> i \<and> i \<le> last_i)"
proof (induction cs cap p first_i last_i rule: bisect.induct)
  case (1 cs cap p first_i last_i)
  show ?case
  proof (cases "first_i \<le> last_i")
    case False
    then show ?thesis by (subst bisect.simps) simp
  next
    case True
    define middle where "middle = (first_i + last_i) sdiv 2"
    have mid: "middle = (first_i + last_i) div 2"
      unfolding middle_def using "1.prems" True by (simp add: sdiv2_nonneg)
    have mid_rng: "first_i \<le> middle" "middle \<le> last_i"
      using mid True by auto
    have rd: "cell_at cs cap middle = Inr (cs middle)"
      using mid_rng "1.prems" by (simp add: cell_at_def)
    show ?thesis
    proof (cases "cum cs middle < p")
      case lt: True
      obtain i where i: "bisect cs cap p (middle + 1) last_i = Inr i"
          "i = 0 \<or> middle + 1 \<le> i \<and> i \<le> last_i"
        using "1.IH"(1)[OF True middle_def rd lt] "1.prems" mid_rng by auto
      have "bisect cs cap p first_i last_i = Inr i"
        using True rd lt i(1) by (subst bisect.simps) (simp add: middle_def[symmetric])
      then show ?thesis using i(2) mid_rng by auto
    next
      case ge: False
      then have m1: "1 \<le> middle"
        using "1.prems" mid_rng by (cases "middle = 0") auto
      have rd1: "cell_at cs cap (middle - 1) = Inr (cs (middle - 1))"
        using m1 mid_rng "1.prems" by (simp add: cell_at_def)
      show ?thesis
      proof (cases "cum cs (middle - 1) < p")
        case True2: True
        have "bisect cs cap p first_i last_i = Inr middle"
          using True rd rd1 True2 ge by (subst bisect.simps) (simp add: middle_def[symmetric])
        then show ?thesis using mid_rng by auto
      next
        case F2: False
        obtain i where i: "bisect cs cap p first_i (middle - 1) = Inr i"
          "i = 0 \<or> first_i \<le> i \<and> i \<le> middle - 1"
          using "1.IH"(2)[OF True middle_def rd ge rd1] F2 ge "1.prems" mid_rng by auto
        have "bisect cs cap p first_i last_i = Inr i"
          using True rd rd1 ge F2 i(1) by (subst bisect.simps) (simp add: middle_def[symmetric])
        then show ?thesis using i(2) mid_rng by auto
      qed
    qed
  qed
qed

lemma example_cum: "cum_list (array_of [cell 10 0.2 0.2, cell 11 0.3 0.5, cell 12 0.5 1.0, cell 0 0 0]) 3 = [0.2, 0.5, 1.0]"
  by (simp add: cum_list_def array_of_def cell_def numeral_3_eq_3)


subsection \<open>Weighted seed selection\<close>

text \<open>
  Claim C2. Let \<open>p\<close> be the value drawn by \<^verbatim>\<open>find_probable_seed\<close> in a region holding
  \<open>n \<ge> 1\<close> cells whose cumulative probabilities are non-decreasing. The edge rules are
  applied in the order of the code: if \<open>p\<close> is at most the first cumulative probability the
  result is index 0; otherwise, if \<open>p\<close> is at least the last one, the result is the last
  index \<open>n - 1\<close>; otherwise the result is the unique index \<open>i\<close> with
  \<open>cum (i - 1) < p \<le> cum i\<close>. The two edge rules can only meet when \<open>p\<close> equals both
  the first and the last entry, which a list ending in 1 excludes for a draw below 1;
  there the first rule decides. For the cumulative values 0.2, 0.5, 1.0 and \<open>p = 0.45\<close>
  the result is index 1 (the witness below).
\<close>

theorem find_probable_seed_selects:
  assumes reg: "nth_chk (num u) r = Inr n" "nth_chk (cells u) r = Inr cs"
      "nth_chk (max_cap u) r = Inr cap"
    and n: "1 \<le> n" "n \<le> cap"
    and srt: "sorted (cum_list cs n)"
    and p: "p = fst (G_drand48 g)"
  shows "(p \<le> cum cs 0 \<longrightarrow> fst (find_probable_seed u r g) = Inr 0) \<and>
         (cum cs 0 < p \<and> cum cs (n - 1) \<le> p \<longrightarrow> fst (find_probable_seed u r g) = Inr (n - 1)) \<and>
         (cum cs 0 < p \<and> p < cum cs (n - 1) \<longrightarrow>
            (\<exists>i. fst (find_probable_seed u r g) = Inr i \<and> 1 \<le> i \<and> i < n \<and>
                 cum cs (i - 1) < p \<and> p \<le> cum cs i \<and>
                 (\<forall>j. 1 \<le> j \<and> j < n \<and> cum cs (j - 1) < p \<and> p \<le> cum cs j \<longrightarrow> j = i)))"
proof -
  have rd0: "cell_at cs cap 0 = Inr (cs 0)" and rdl: "cell_at cs cap (n - 1) = Inr (cs (n - 1))"
    using n by (simp_all add: cell_at_def)
  have unf: "fst (find_probable_seed u r g) =
      (if p \<le> cum cs 0 then Inr 0
       else if cum cs (n - 1) \<le> p then Inr (n - 1) else bisect cs cap p 0 (n - 1))"
    using reg rd0 rdl p
    by (simp add: find_probable_seed_def bind_e_def G_drand48_def split: prod.splits)
  have c1: "p \<le> cum cs 0 \<longrightarrow> fst (find_probable_seed u r g) = Inr 0"
    using unf by simp
  have c2: "cum cs 0 < p \<and> cum cs (n - 1) \<le> p \<longrightarrow> fst (find_probable_seed u r g) = Inr (n - 1)"
    using unf by simp
  have c3: "\<exists>i. fst (find_probable_seed u r g) = Inr i \<and> 1 \<le> i \<and> i < n \<and>
                 cum cs (i - 1) < p \<and> p \<le> cum cs i \<and>
                 (\<forall>j. 1 \<le> j \<and> j < n \<and> cum cs (j - 1) < p \<and> p \<le> cum cs j \<longrightarrow> j = i)"
    if lo: "cum cs 0 < p" and hi: "p < cum cs (n - 1)"
  proof -
    obtain i where i: "bisect cs cap p 0 (n - 1) = Inr i" "0 \<le> i" "i \<le> n - 1" "1 \<le> i"
        "cum cs (i - 1) < p" "p \<le> cum cs i"
      using bisect_finds[of 0 "n - 1" cap cs p] n lo hi by auto
    have uniq: "j = i" if j: "1 \<le> j" "j < n" "cum cs (j - 1) < p" "p \<le> cum cs j" for j
    proof (rule ccontr)
      assume "j \<noteq> i"
      then consider "j \<le> i - 1" | "i \<le> j - 1" by linarith
      then show False
      proof cases
        case 1
        then have "cum cs j \<le> cum cs (i - 1)"
          using sorted_cum_list[OF srt, of j "i - 1"] j i by simp
        then show False using j i by simp
      next
        case 2
        then have "cum cs i \<le> cum cs (j - 1)"
          using sorted_cum_list[OF srt, of i "j - 1"] j i by simp
        then show False using j i by simp
      qed
    qed
    have res: "fst (find_probable_seed u r g) = Inr i"
      using unf lo hi i(1) by simp
    have all: "\<forall>j. 1 \<le> j \<and> j < n \<and> cum cs (j - 1) < p \<and> p \<le> cum cs j \<longrightarrow> j = i"
      using uniq by blast
    have lt: "i < n" using i(3) by simp
    show ?thesis
      by (intro exI[of _ i] conjI) (fact res, fact i(4), fact lt, fact i(5), fact i(6), fact all)
  qed
  from c3 have c3': "cum cs 0 < p \<and> p < cum cs (n - 1) \<longrightarrow>
            (\<exists>i. fst (find_probable_seed u r g) = Inr i \<and> 1 \<le> i \<and> i < n \<and>
                 cum cs (i - 1) < p \<and> p \<le> cum cs i \<and>
                 (\<forall>j. 1 \<le> j \<and> j < n \<and> cum cs (j - 1) < p \<and> p \<le> cum cs j \<longrightarrow> j = i))"
    by (intro impI) (elim conjE)
  show ?thesis by (intro conjI c1 c2 c3')
qed

theorem find_probable_seed_selects_witness:
  "fst (find_probable_seed example_index 0 (\<lambda>_. 0.45)) = Inr 1"
proof -
  define cs where "cs = array_of [cell 10 0.2 0.2, cell 11 0.3 0.5, cell 12 0.5 1.0, cell 0 0 0]"
  have c: "cum cs 0 = 0.2" "cum cs 1 = 0.5" "cum cs 2 = 1"
    by (simp_all add: cs_def array_of_def cell_def)
  have h1: "nth_chk (num example_index) 0 = Inr 3"
    and h2: "nth_chk (cells example_index) 0 = Inr cs"
    and h3: "nth_chk (max_cap example_index) 0 = Inr 4"
    by (simp_all add: example_index_def nth_chk_def cs_def)
  have h4: "sorted (cum_list cs 3)"
    unfolding cs_def example_cum by simp
  have h5: "(0.45::real) = fst (G_drand48 (\<lambda>_. 0.45))"
    by (simp add: G_drand48_def)
  have h6: "(1::int) \<le> 3" and h7: "(3::int) \<le> 4" by simp_all
  note t = find_probable_seed_selects[OF h1 h2 h3 h6 h7 h4 h5]
  have rng: "cum cs 0 < 0.45 \<and> 0.45 < cum cs (3 - 1)"
    using c by simp
  have "\<exists>i. fst (find_probable_seed example_index 0 (\<lambda>_. 0.45)) = Inr i \<and> 1 \<le> i \<and> i < 3 \<and>
                 cum cs (i - 1) < 0.45 \<and> 0.45 \<le> cum cs i \<and>
                 (\<forall>j. 1 \<le> j \<and> j < 3 \<and> cum cs (j - 1) < 0.45 \<and> 0.45 \<le> cum cs j \<longrightarrow> j = i)"
    by (rule t[THEN conjunct2, THEN conjunct2, THEN mp]) (rule rng)
  then obtain i where i: "fst (find_probable_seed example_index 0 (\<lambda>_. 0.45)) = Inr i \<and> 1 \<le> i \<and> i < 3 \<and>
                 cum cs (i - 1) < 0.45 \<and> 0.45 \<le> cum cs i \<and>
                 (\<forall>j. 1 \<le> j \<and> j < 3 \<and> cum cs (j - 1) < 0.45 \<and> 0.45 \<le> cum cs j \<longrightarrow> j = i)" ..
  have r: "fst (find_probable_seed example_index 0 (\<lambda>_. 0.45)) = Inr i"
    and i1: "1 \<le> i" and i3: "i < 3" and lt: "cum cs (i - 1) < 0.45"
    using i by simp_all
  have "i = 1 \<or> i = 2" using i1 i3 by linarith
  then have "i = 1"
  proof
    assume "i = 2"
    then show ?thesis using lt c by simp
  qed
  then show ?thesis using r by simp
qed


text \<open>
  Claim C9. In a region with \<open>n \<ge> 1\<close> cells, non-decreasing cumulative probabilities and
  last cumulative probability 1, for a draw in \<open>[0, 1)\<close>, \<^verbatim>\<open>find_probable_seed\<close> makes no
  access outside the array (every such access, the one at position \<open>-1\<close> included, would
  be the outcome \<open>OutOfBounds\<close>) and returns an index between 0 and \<open>n - 1\<close>. The proof
  goes through \<open>bisect_in_range\<close>, which also covers the fallback \<^verbatim>\<open>return 0\<close>.
\<close>

theorem find_probable_seed_in_range:
  assumes reg: "nth_chk (num u) r = Inr n" "nth_chk (cells u) r = Inr cs"
      "nth_chk (max_cap u) r = Inr cap"
    and n: "1 \<le> n" "n \<le> cap"
    and srt: "sorted (cum_list cs n)"
    and one: "cumulative_probability (cs (n - 1)) = 1"
    and p: "0 \<le> fst (G_drand48 g)" "fst (G_drand48 g) < 1"
  shows "\<exists>i. fst (find_probable_seed u r g) = Inr i \<and> 0 \<le> i \<and> i \<le> n - 1"
proof -
  define p where "p = fst (G_drand48 g)"
  have rd0: "cell_at cs cap 0 = Inr (cs 0)" and rdl: "cell_at cs cap (n - 1) = Inr (cs (n - 1))"
    using n by (simp_all add: cell_at_def)
  have unf: "fst (find_probable_seed u r g) =
      (if p \<le> cumulative_probability (cs 0) then Inr 0
       else if cumulative_probability (cs (n - 1)) \<le> p then Inr (n - 1)
       else bisect cs cap p 0 (n - 1))"
    using reg rd0 rdl
    by (simp add: find_probable_seed_def bind_e_def G_drand48_def p_def split: prod.splits)
  show ?thesis
  proof (cases "p \<le> cumulative_probability (cs 0)")
    case True
    then show ?thesis using unf n by simp
  next
    case False
    then have lo: "cumulative_probability (cs 0) < p" by simp
    have hi: "\<not> cumulative_probability (cs (n - 1)) \<le> p"
      using one p by (simp add: p_def)
    obtain i where i: "bisect cs cap p 0 (n - 1) = Inr i" "i = 0 \<or> 0 \<le> i \<and> i \<le> n - 1"
      using bisect_in_range[of 0 "n - 1" cap cs p] n lo by auto
    have "fst (find_probable_seed u r g) = Inr i"
      using unf False hi i(1) by simp
    moreover have "0 \<le> i \<and> i \<le> n - 1" using i(2) n by auto
    ultimately show ?thesis by blast
  qed
qed

theorem find_probable_seed_in_range_witness:
  "\<exists>i. fst (find_probable_seed example_index 0 (\<lambda>_. 0.45)) = Inr i \<and> 0 \<le> i \<and> i \<le> 3 - 1"
proof -
  define cs where "cs = array_of [cell 10 0.2 0.2, cell 11 0.3 0.5, cell 12 0.5 1.0, cell 0 0 0]"
  have h1: "nth_chk (num example_index) 0 = Inr 3"
    and h2: "nth_chk (cells example_index) 0 = Inr cs"
    and h3: "nth_chk (max_cap example_index) 0 = Inr 4"
    by (simp_all add: example_index_def nth_chk_def cs_def)
  have h4: "sorted (cum_list cs 3)"
    unfolding cs_def example_cum by simp
  have h5: "cumulative_probability (cs (3 - 1)) = 1"
    by (simp add: cs_def array_of_def cell_def)
  have h6: "(1::int) \<le> 3" and h7: "(3::int) \<le> 4" by simp_all
  have h8: "0 \<le> fst (G_drand48 (\<lambda>_. 0.45 :: real))" and h9: "fst (G_drand48 (\<lambda>_. 0.45 :: real)) < 1"
    by (simp_all add: G_drand48_def)
  show ?thesis
    by (rule find_probable_seed_in_range[OF h1 h2 h3 h6 h7 h4 h5 h8 h9])
qed


subsection \<open>Uniform seed selection\<close>

text \<open>
  Claim C3. With the method \<^verbatim>\<open>RANDOM\<close>, \<^verbatim>\<open>get_seed\<close> multiplies the draw by
  \<^verbatim>\<open>max[region_idx]\<close>, the capacity of the array, and not by the count \<^verbatim>\<open>num[region_idx]\<close>.
  In a region with one undeveloped cell and capacity 4, the draw 0.5 selects index 2,
  beyond the only valid index 0, and the seed is decoded from the stale entry there.
\<close>

theorem get_seed_random_beyond_count:
  "fst (get_seed row_major 10 stale_index 0 RANDOM (constant_draws 0.5)) = Inr (2, 3, 2) \<and>
   nth_chk (num stale_index) 0 = Inr 1"
  by (simp add: get_seed_def G_drand48_def stale_index_def constant_draws_def nth_chk_def bind_e_def
      c_int_of_real_def cell_at_def array_of_def cell_def row_major_def)

subsection \<open>The potential model\<close>






subsection \<open>Rebuilding the index\<close>

lemma cum_loop_spec:
  "1 \<le> i \<Longrightarrow> i \<le> n \<Longrightarrow> n \<le> cap \<Longrightarrow>
   \<exists>cs'. cum_loop cs cap n i = Inr (cs', n) \<and>
     (\<forall>j. probability (cs' j) = probability (cs j)) \<and>
     (\<forall>j. j < i \<or> n \<le> j \<longrightarrow> cs' j = cs j) \<and>
     (\<forall>j. i \<le> j \<and> j < n \<longrightarrow> cum cs' j = cum cs' (j - 1) + probability (cs j))"
proof (induction cs cap n i rule: cum_loop.induct)
  case (1 cs cap n i)
  show ?case
  proof (cases "i < n")
    case False
    then have "i = n" using "1.prems" by simp
    then show ?thesis by (subst cum_loop.simps) simp
  next
    case True
    define cs1 where "cs1 = cs(i := (cs i)\<lparr>cumulative_probability := cum cs (i - 1) + probability (cs i)\<rparr>)"
    have rd: "cell_at cs cap i = Inr (cs i)" "cell_at cs cap (i - 1) = Inr (cs (i - 1))"
      using True "1.prems" by (simp_all add: cell_at_def)
    have wr: "cell_put cs cap i ((cs i)\<lparr>cumulative_probability := cum cs (i - 1) + probability (cs i)\<rparr>)
        = Inr cs1"
      using True "1.prems" by (simp add: cell_put_def cs1_def)
    have unf: "cum_loop cs cap n i = cum_loop cs1 cap n (i + 1)"
      using True rd wr by (subst cum_loop.simps) (simp add: bind_e_def)
    obtain cs' where cs': "cum_loop cs1 cap n (i + 1) = Inr (cs', n)"
        "\<forall>j. probability (cs' j) = probability (cs1 j)"
        "\<forall>j. j < i + 1 \<or> n \<le> j \<longrightarrow> cs' j = cs1 j"
        "\<forall>j. i + 1 \<le> j \<and> j < n \<longrightarrow> cum cs' j = cum cs' (j - 1) + probability (cs1 j)"
      using "1.IH"[of cs1] True "1.prems" by auto
    have p1: "probability (cs1 j) = probability (cs j)" for j
      by (simp add: cs1_def)
    have a: "\<forall>j. probability (cs' j) = probability (cs j)"
      using cs'(2) p1 by simp
    have b: "\<forall>j. j < i \<or> n \<le> j \<longrightarrow> cs' j = cs j"
      using cs'(3) True by (auto simp: cs1_def)
    have ci: "cum cs' i = cum cs (i - 1) + probability (cs i)"
      using cs'(3) by (simp add: cs1_def)
    have cim: "cum cs' (i - 1) = cum cs (i - 1)"
      using cs'(3) by (simp add: cs1_def)
    have c: "\<forall>j. i \<le> j \<and> j < n \<longrightarrow> cum cs' j = cum cs' (j - 1) + probability (cs j)"
    proof (intro allI impI)
      fix j assume j: "i \<le> j \<and> j < n"
      show "cum cs' j = cum cs' (j - 1) + probability (cs j)"
      proof (cases "j = i")
        case True
        then show ?thesis using ci cim by simp
      next
        case False
        then have "i + 1 \<le> j \<and> j < n" using j by simp
        then show ?thesis using cs'(4) p1 by simp
      qed
    qed
    show ?thesis
      unfolding unf using cs'(1) a b c by blast
  qed
qed

lemma div_loop_spec:
  "sum_v \<noteq> 0 \<Longrightarrow> 0 \<le> i \<Longrightarrow> n \<le> cap \<Longrightarrow>
   \<exists>cs'. div_loop cs cap n sum_v i = Inr cs' \<and>
     (\<forall>j. cs' j = (if i \<le> j \<and> j < n
                    then (cs j)\<lparr>cumulative_probability := cum cs j / sum_v\<rparr> else cs j))"
proof (induction cs cap n sum_v i rule: div_loop.induct)
  case (1 cs cap n sum_v i)
  show ?case
  proof (cases "i < n")
    case False
    then show ?thesis by (subst div_loop.simps) simp
  next
    case True
    define cs1 where "cs1 = cs(i := (cs i)\<lparr>cumulative_probability := cum cs i / sum_v\<rparr>)"
    have rd: "cell_at cs cap i = Inr (cs i)"
      using True "1.prems" by (simp add: cell_at_def)
    have wr: "cell_put cs cap i ((cs i)\<lparr>cumulative_probability := cum cs i / sum_v\<rparr>) = Inr cs1"
      using True "1.prems" by (simp add: cell_put_def cs1_def)
    have unf: "div_loop cs cap n sum_v i = div_loop cs1 cap n sum_v (i + 1)"
      using True rd wr "1.prems"(1) by (subst div_loop.simps) (simp add: bind_e_def)
    obtain cs' where cs': "div_loop cs1 cap n sum_v (i + 1) = Inr cs'"
        "\<forall>j. cs' j = (if i + 1 \<le> j \<and> j < n
                    then (cs1 j)\<lparr>cumulative_probability := cum cs1 j / sum_v\<rparr> else cs1 j)"
      using "1.IH"[of cs1] True "1.prems" by auto
    have "\<forall>j. cs' j = (if i \<le> j \<and> j < n
                    then (cs j)\<lparr>cumulative_probability := cum cs j / sum_v\<rparr> else cs j)"
      using cs'(2) True by (auto simp: cs1_def)
    then show ?thesis unfolding unf using cs'(1) by blast
  qed
qed

lemma prefix_sums:
  assumes c0: "cum cs 0 = probability (cs 0)"
    and rec: "\<forall>j. 1 \<le> j \<and> j < n \<longrightarrow> cum cs j = cum cs (j - 1) + probability (cs j)"
  shows "int k < n \<Longrightarrow> cum cs (int k) = (\<Sum>j\<le>k. probability (cs (int j)))"
proof (induction k)
  case 0
  then show ?case using c0 by simp
next
  case (Suc k)
  then have "cum cs (int (Suc k)) = cum cs (int k) + probability (cs (int (Suc k)))"
    using rec[rule_format, of "int (Suc k)"] by simp
  then show ?case using Suc by simp
qed

lemma normalize_region_total:
  assumes reg: "nth_chk (cells u) r = Inr cs" "nth_chk (max_cap u) r = Inr cap"
      "nth_chk (num u) r = Inr n"
    and n: "1 \<le> n" "n \<le> cap"
    and nonneg: "\<forall>j. 0 \<le> j \<and> j < n \<longrightarrow> 0 \<le> probability (cs j)"
    and total: "0 < (\<Sum>j<nat n. probability (cs (int j)))"
  shows "\<exists>u' cs'. normalize_region r u = Inr u' \<and> nth_chk (cells u') r = Inr cs' \<and>
           num u' = num u \<and> max_cap u' = max_cap u \<and>
           sorted (cum_list cs' n) \<and> cum cs' (n - 1) = 1 \<and>
           (\<forall>k < nat n. cum cs' (int k) =
              (\<Sum>j\<le>k. probability (cs (int j))) / (\<Sum>j<nat n. probability (cs (int j))))"
proof -
  define tot where "tot = (\<Sum>j<nat n. probability (cs (int j)))"
  define cs1 where "cs1 = cs(0 := (cs 0)\<lparr>cumulative_probability := probability (cs 0)\<rparr>)"
  have rd0: "cell_at cs cap 0 = Inr (cs 0)"
    and wr0: "cell_put cs cap 0 ((cs 0)\<lparr>cumulative_probability := probability (cs 0)\<rparr>) = Inr cs1"
    using n by (simp_all add: cell_at_def cell_put_def cs1_def)
  obtain cs2 where cs2: "cum_loop cs1 cap n 1 = Inr (cs2, n)"
      "\<forall>j. probability (cs2 j) = probability (cs1 j)"
      "\<forall>j. j < 1 \<or> n \<le> j \<longrightarrow> cs2 j = cs1 j"
      "\<forall>j. 1 \<le> j \<and> j < n \<longrightarrow> cum cs2 j = cum cs2 (j - 1) + probability (cs1 j)"
    using cum_loop_spec[of 1 n cap cs1] n by auto
  have pr: "probability (cs2 j) = probability (cs j)" for j
    using cs2(2) by (simp add: cs1_def)
  have c0: "cum cs2 0 = probability (cs2 0)"
    using cs2(3) by (simp add: cs1_def)
  have rec: "\<forall>j. 1 \<le> j \<and> j < n \<longrightarrow> cum cs2 j = cum cs2 (j - 1) + probability (cs2 j)"
    using cs2(4) cs2(2) by simp
  have pre: "cum cs2 (int k) = (\<Sum>j\<le>k. probability (cs (int j)))" if "k < nat n" for k
    using prefix_sums[OF c0 rec, of k] that by (simp add: pr)
  have nn: "nat n = Suc (nat (n - 1))" using n by simp
  have last: "cum cs2 (n - 1) = tot"
    using pre[of "nat (n - 1)"] n unfolding tot_def nn by (simp add: lessThan_Suc_atMost)
  have rdl: "cell_at cs2 cap (n - 1) = Inr (cs2 (n - 1))"
    using n by (simp add: cell_at_def)
  have tot0: "tot \<noteq> 0" using total by (simp add: tot_def)
  obtain cs3 where cs3: "div_loop cs2 cap n tot 0 = Inr cs3"
      "\<forall>j. cs3 j = (if 0 \<le> j \<and> j < n
                    then (cs2 j)\<lparr>cumulative_probability := cum cs2 j / tot\<rparr> else cs2 j)"
    using div_loop_spec[OF tot0, of 0 n cap cs2] n by auto
  have rr: "0 \<le> r" "r < int (length (cells u))"
    using reg(1) by (auto simp: nth_chk_def split: if_splits)
  define u' where "u' = u\<lparr>cells := (cells u)[nat r := cs3]\<rparr>"
  have up: "upd_chk (cells u) r cs3 = Inr ((cells u)[nat r := cs3])"
    using rr by (simp add: upd_chk_def)
  have run: "normalize_region r u = Inr u'"
    unfolding normalize_region_def
    by (simp add: reg rd0 wr0 cs2(1) rdl last cs3(1) up bind_e_def u'_def)
  have get: "nth_chk (cells u') r = Inr cs3"
    using rr by (simp add: u'_def nth_chk_def)
  have val: "cum cs3 (int k) = (\<Sum>j\<le>k. probability (cs (int j))) / tot" if "k < nat n" for k
    using cs3(2) pre[OF that] that by simp
  have one: "cum cs3 (n - 1) = 1"
    using cs3(2) last tot0 n by simp
  have mono: "(\<Sum>j\<le>i. probability (cs (int j))) \<le> (\<Sum>j\<le>k. probability (cs (int j)))"
    if "i \<le> k" "k < nat n" for i k
  proof (rule sum_mono2)
    show "finite {..k}" by simp
    show "{..i} \<subseteq> {..k}" using that by simp
    fix b assume "b \<in> {..k} - {..i}"
    then have "int b < n" using that by auto
    then show "0 \<le> probability (cs (int b))" using nonneg by simp
  qed
  have srt: "sorted (cum_list cs3 n)"
    unfolding sorted_iff_nth_mono
  proof (intro allI impI)
    fix i k assume ik: "i \<le> k" "k < length (cum_list cs3 n)"
    then have k: "k < nat n" and i: "i < nat n" by (simp_all add: cum_list_def)
    have "cum cs3 (int i) \<le> cum cs3 (int k)"
      using val[OF i] val[OF k] mono[OF ik(1) k] total
      by (simp add: tot_def divide_right_mono)
    then show "cum_list cs3 n ! i \<le> cum_list cs3 n ! k"
      using i k by (simp add: cum_list_def)
  qed
  show ?thesis
    using run get srt one val unfolding tot_def
    by (intro exI[of _ u'] exI[of _ cs3]) (simp add: u'_def)
qed

lemma mapE_map:
  "(\<And>x. x \<in> set xs \<Longrightarrow> f x = Inr (h x)) \<Longrightarrow> mapE f xs = Inr (map h xs)"
  by (induction xs) (simp_all add: bind_e_def)

lemma initialize_incentive_positive:
  assumes "0 < exponent"
  shows "initialize_incentive P exponent =
     Inr (P\<lparr>incentive_transform :=
              Some (map (\<lambda>i. if i = 0 then 0 else (real i * (1 / 1000)) powr exponent) [0..<1001]),
            incentive_transform_size := 1001\<rparr>)"
proof -
  have "mapE (\<lambda>i. c_pow (real i * (1 / 1000)) exponent) [0..<1001] =
        Inr (map (\<lambda>i. if i = 0 then 0 else (real i * (1 / 1000)) powr exponent) [0..<1001])"
    by (rule mapE_map) (use assms in \<open>simp add: c_pow_def\<close>)
  then show ?thesis
    by (simp add: initialize_incentive_def Let_def bind_e_def)
qed

lemma exp_10_large: "(1000::real) < exp 10"
proof -
  have "(2::real) \<le> exp 1" using exp_ge_add_one_self[of "1::real"] by simp
  then have "(2::real) ^ 10 \<le> exp 1 ^ 10" by (intro power_mono) simp_all
  moreover have "exp (1::real) ^ 10 = exp 10"
    using exp_of_nat_mult[of 10 "1::real"] by simp
  ultimately show ?thesis by simp
qed

lemma low_probability_index:
  "c_int_of_real (1 / (1 + exp 10) * 1000) = 0"
proof -
  have "0 \<le> 1 / (1 + exp (10::real)) * 1000" by (simp add: add_nonneg_nonneg)
  moreover have "1 / (1 + exp (10::real)) * 1000 < 1"
    using exp_10_large by (simp add: field_simps add_pos_pos)
  ultimately show ?thesis by (simp add: c_int_of_real_def floor_eq_iff)
qed

lemma transformed_probability_zero:
  assumes T: "T = map (\<lambda>i. if i = 0 then 0 else (real i * (1 / 1000)) powr e) [0..<1001]"
  shows "get_develop_probability_xy open_land
           (flat_potential\<lparr>incentive_transform := Some T, incentive_transform_size := 1001\<rparr>)
           0 0 0 = Inr 0"
proof -
  have T0: "nth_chk T 0 = Inr 0"
    by (simp add: T nth_chk_def)
  have idx: "c_int_of_real (1 / (1 + exp 10) * real_of_int (1001 - 1)) = 0"
    using low_probability_index by simp
  have loop: "predictor_loop
      (flat_potential\<lparr>incentive_transform := Some T, incentive_transform_size := 1001\<rparr>)
      0 [] 0 (- 10 + 0 * 0) = Inr (- 10)"
    by (subst predictor_loop.simps) (simp add: flat_potential_def)
  have lenT: "length T = 1001" by (simp add: T)
  have T0': "T ! 0 = 0" by (simp add: T)
  have idx': "c_int_of_real (1000 / (1 + exp 10)) = 0"
    using low_probability_index by simp
  show ?thesis
    by (simp add: get_develop_probability_xy_def flat_potential_def open_land_def nth_chk_def
        bind_e_def predictor_loop.simps Let_def idx' lenT T0')
qed

text \<open>
  Claim C1. \<open>normalize_region_total\<close> above shows the invariant for a region whose
  probabilities are non-negative with a positive total: the cumulative probabilities are
  the prefix sums divided by the total, they are non-decreasing and the last one is 1.
  The code does not guard the total: with the incentive table of \<^verbatim>\<open>initialize_incentive\<close>
  (exponent 2), whose entry 0 is 0, a region whose only undeveloped cell has the raw
  probability \<open>1 / (1 + exp 10)\<close> gets the probability 0, the total is 0, and the
  normalisation divides 0 by 0: no cumulative probability of that region is 1.
\<close>

theorem recompute_zero_total:
  "bind_e (initialize_incentive flat_potential 2)
     (recompute_probabilities idx_of_xy 1 1 fresh_index open_land) = Inl NonFinite"
proof -
  define T where "T = map (\<lambda>i. if i = 0 then 0 else (real i * (1 / 1000)) powr 2) [0..<1001]"
  define P where "P = flat_potential\<lparr>incentive_transform := Some T,
      incentive_transform_size := 1001\<rparr>"
  have init: "initialize_incentive flat_potential 2 = Inr P"
    unfolding P_def T_def by (rule initialize_incentive_positive) simp
  have pr: "get_develop_probability_xy open_land P 0 0 0 = Inr 0"
    unfolding P_def by (rule transformed_probability_zero[where e = 2]) (fact T_def)
  have seg: "seg_developed open_land 0 0 = Some (- 1)" "seg_subregions open_land 0 0 = Some 0"
    by (simp_all add: open_land_def)
  have scan: "scan_cell idx_of_xy P 1 0 0 (fresh_index\<lparr>num := [0]\<rparr>, open_land) =
      Inr (fresh_index\<lparr>max_cap := [1], num := [1],
             cells := [(array_of [cell 0 0 0])
                (0 := \<lparr>cell_id = 0, probability = 0, cumulative_probability = 0, tried = False\<rparr>)]\<rparr>,
           open_land\<lparr>seg_probability :=
              (seg_probability open_land)(0 := (seg_probability open_land 0)(0 := 0))\<rparr>)"
    by (simp add: scan_cell_def seg pr fresh_index_def bind_e_def nth_chk_def upd_chk_def
        cell_put_def idx_of_xy_def array_of_def cell_def)
  have norm: "normalize_region 0 (fresh_index\<lparr>max_cap := [1], num := [1],
             cells := [(array_of [cell 0 0 0])
                (0 := \<lparr>cell_id = 0, probability = 0, cumulative_probability = 0, tried = False\<rparr>)]\<rparr>)
      = Inl NonFinite"
    by (simp add: normalize_region_def fresh_index_def bind_e_def nth_chk_def upd_chk_def
        cell_at_def cell_put_def cum_loop.simps div_loop.simps)
  show ?thesis
    unfolding init
    by (simp add: bind_e_def recompute_probabilities_def upd_chk_def scan norm
        fresh_index_def[THEN arg_cong[of _ _ max_subregions], simplified]
        fresh_index_def[THEN arg_cong[of _ _ num], simplified])
qed

text \<open>
  Claim C8. For a region without undeveloped cells the normalisation still reads
  \<^verbatim>\<open>cells[region][0].probability\<close>, writes \<^verbatim>\<open>cells[region][0].cumulative_probability\<close> and
  reads it back as the sum: entry 0 is not below the count 0. On a grid whose only cell is
  developed, the entry left from the previous rebuild has its cumulative probability
  changed from 1 to 1/2, while the count of the region is 0.
\<close>

theorem recompute_touches_dead_entry:
  "map_sum id (\<lambda>(u', sg'). (num u', cumulative_probability ((cells u' ! 0) 0)))
     (recompute_probabilities idx_of_xy 1 1 one_cell developed_land flat_potential)
     = Inr ([0], 1 / 2) \<and>
   cumulative_probability ((cells one_cell ! 0) 0) = 1"
  by (simp add: recompute_probabilities_def one_cell_def developed_land_def scan_cell_def
      normalize_region_def bind_e_def nth_chk_def upd_chk_def cell_at_def cell_put_def
      cum_loop.simps div_loop.simps array_of_def cell_def)

subsection \<open>One step for one region\<close>


lemma compute_step_result:
  assumes run: "compute_step H u demand alg sg po step region g = Some (Inr r)"
    and d: "nth_chk (table demand) region = Inr drow" "nth_chk drow step = Inr d"
    and e: "nth_chk po region = Inr e"
    and av: "nth_chk (num u) region = Inr available"
  obtains s where
    "step_loop H alg step region
       (if fst (reconciled d e) > available then available else fst (reconciled d e))
       (fst (reconciled d e) > available)
       \<lparr>undev_cells = u, segments = sg, gen = g, n_done = 0,
        unsuccessful_tries = 0, allow_already_tried_ones = False\<rparr> = Some (Inr s)"
    "res_n_done r = n_done s"
    "res_n_to_convert r =
       (if fst (reconciled d e) > available then available else fst (reconciled d e))"
    "res_force_convert_all r = (fst (reconciled d e) > available)"
    "res_warnings r =
       (if fst (reconciled d e) > available then [(region, fst (reconciled d e), available)]
        else [])"
    "upd_chk po region (snd (reconciled d e) + (n_done s - res_n_to_convert r)) =
       Inr (res_patch_overflow r)"
proof -
  define req where "req = fst (reconciled d e)"
  define unc where "unc = snd (reconciled d e)"
  define n where "n = (if req > available then available else req)"
  define s0 where "s0 = \<lparr>undev_cells = u, segments = sg, gen = g, n_done = 0,
              unsuccessful_tries = 0, allow_already_tried_ones = False\<rparr>"
  have rec: "(if e > 0 then (if d - e > 0 then (d - e, 0) else (0, e - d)) else (d, e)) = (req, unc)"
    by (auto simp: req_def unc_def reconciled_def)
  have pro: "bind_e (nth_chk (table demand) region) (\<lambda>demand_row.
        bind_e (nth_chk demand_row step) (\<lambda>n_to_convert.
        bind_e (nth_chk po region) (\<lambda>extra.
          let (n_to_convert, extra) =
                (if extra > 0 then
                   (if n_to_convert - extra > 0 then (n_to_convert - extra, 0)
                    else (0, extra - n_to_convert))
                 else (n_to_convert, extra))
          in bind_e (nth_chk (num u) region) (\<lambda>available.
               Inr (if n_to_convert > available
                    then (available, extra, True, [(region, n_to_convert, available)])
                    else (n_to_convert, extra, False, []))))))
      = Inr (n, unc, req > available, if req > available then [(region, req, available)] else [])"
    unfolding d e bind_e_def sum.case rec Let_def prod.case av
    by (simp add: n_def)
  have run': "(case step_loop H alg step region n (req > available) s0 of
             None \<Rightarrow> None
           | Some (Inl e) \<Rightarrow> Some (Inl e)
           | Some (Inr s) \<Rightarrow>
               (let extra = unc + (n_done s - n)
                in case upd_chk po region extra of
                     Inl e \<Rightarrow> Some (Inl e)
                   | Inr patch_overflow' \<Rightarrow>
                       Some (Inr \<lparr>res_undev_cells = undev_cells s, res_segments = segments s,
                                  res_gen = gen s, res_patch_overflow = patch_overflow',
                                  res_warnings = (if req > available then [(region, req, available)] else []),
                                  res_n_to_convert = n,
                                  res_n_done = n_done s,
                                  res_force_convert_all = (req > available)\<rparr>))) = Some (Inr r)"
    using run unfolding compute_step_def pro sum.case prod.case s0_def[symmetric] .
  then obtain s where s: "step_loop H alg step region n (req > available) s0 = Some (Inr s)"
    by (auto split: option.splits sum.splits)
  from run' s obtain po' where po': "upd_chk po region (unc + (n_done s - n)) = Inr po'"
      and r: "r = \<lparr>res_undev_cells = undev_cells s, res_segments = segments s,
                                  res_gen = gen s, res_patch_overflow = po',
                                  res_warnings = (if req > available then [(region, req, available)] else []),
                                  res_n_to_convert = n,
                                  res_n_done = n_done s,
                                  res_force_convert_all = (req > available)\<rparr>"
    by (auto simp: Let_def split: sum.splits)
  show ?thesis
  proof (rule that[of s])
    show "step_loop H alg step region
       (if fst (reconciled d e) > available then available else fst (reconciled d e))
       (fst (reconciled d e) > available)
       \<lparr>undev_cells = u, segments = sg, gen = g, n_done = 0,
        unsuccessful_tries = 0, allow_already_tried_ones = False\<rparr> = Some (Inr s)"
      using s unfolding n_def req_def s0_def .
    show "res_n_done r = n_done s" by (simp add: r)
    show "res_n_to_convert r =
       (if fst (reconciled d e) > available then available else fst (reconciled d e))"
      by (simp add: r n_def req_def)
    show "res_force_convert_all r = (fst (reconciled d e) > available)"
      by (simp add: r req_def)
    show "res_warnings r =
       (if fst (reconciled d e) > available then [(region, fst (reconciled d e), available)]
        else [])"
      by (simp add: r req_def)
    show "upd_chk po region (snd (reconciled d e) + (n_done s - res_n_to_convert r)) =
       Inr (res_patch_overflow r)"
      using po' by (simp add: r unc_def)
  qed
qed

lemma upd_chk_nth: "upd_chk xs i v = Inr ys \<Longrightarrow> nth_chk ys i = Inr v"
  by (auto simp: upd_chk_def nth_chk_def split: if_splits)

lemma two_cells_run:
  "\<exists>r. compute_step pair_helpers two_cells \<lparr>table = [[7, 1]]\<rparr> PROBABILITY open_land [0] 1 0
          (\<lambda>_. 1 / 4) = Some (Inr r) \<and> res_n_done r = 2 \<and> res_n_to_convert r = 1"
  apply (simp add: compute_step_def nth_chk_def bind_e_def two_cells_def)
  apply (subst step_loop.simps)
  apply (simp add: step_body_def get_seed_def find_probable_seed_def G_drand48_def nth_chk_def
      bind_e_def cell_at_def cell_put_def upd_chk_def array_of_def cell_def pair_helpers_def
      row_major_def open_land_def challenge_and_grow_def set_developed_def Let_def numeral_2_eq_2)
  apply (subst step_loop.simps)
  apply (simp add: upd_chk_def)
  done

text \<open>
  Claim C4. Whenever \<^verbatim>\<open>compute_step\<close> returns, for the demand \<open>d\<close> of the region and
  step and the carried overflow \<open>e\<close>: a positive overflow has been subtracted from the
  demand, the requested amount being floored at 0 and the rest of the overflow kept
  (\<open>reconciled d e\<close>); the requested amount is then limited by the number of available
  cells; and the stored overflow is the unconsumed overflow plus the converted cells
  minus the requested amount. With no carried overflow and a demand within the supply the
  stored overflow is the number of converted cells minus the demand.
\<close>

theorem compute_step_overflow:
  assumes run: "compute_step H u demand alg sg po step region g = Some (Inr r)"
    and d: "nth_chk (table demand) region = Inr drow" "nth_chk drow step = Inr d"
    and e: "nth_chk po region = Inr e"
    and av: "nth_chk (num u) region = Inr available"
  shows "res_n_to_convert r =
           (if fst (reconciled d e) > available then available else fst (reconciled d e)) \<and>
         nth_chk (res_patch_overflow r) region =
           Inr (snd (reconciled d e) + (res_n_done r - res_n_to_convert r)) \<and>
         (e = 0 \<and> d \<le> available \<longrightarrow>
            nth_chk (res_patch_overflow r) region = Inr (res_n_done r - d))"
proof -
  obtain s where s: "step_loop H alg step region
       (if fst (reconciled d e) > available then available else fst (reconciled d e))
       (fst (reconciled d e) > available)
       \<lparr>undev_cells = u, segments = sg, gen = g, n_done = 0,
        unsuccessful_tries = 0, allow_already_tried_ones = False\<rparr> = Some (Inr s)"
    "res_n_done r = n_done s"
    "res_n_to_convert r =
       (if fst (reconciled d e) > available then available else fst (reconciled d e))"
    "res_force_convert_all r = (fst (reconciled d e) > available)"
    "res_warnings r =
       (if fst (reconciled d e) > available then [(region, fst (reconciled d e), available)]
        else [])"
    "upd_chk po region (snd (reconciled d e) + (n_done s - res_n_to_convert r)) =
       Inr (res_patch_overflow r)"
    using run d e av by (rule compute_step_result)
  have ov: "nth_chk (res_patch_overflow r) region =
           Inr (snd (reconciled d e) + (res_n_done r - res_n_to_convert r))"
    using upd_chk_nth[OF s(6)] s(2) by simp
  have ex: "nth_chk (res_patch_overflow r) region = Inr (res_n_done r - d)"
    if "e = 0 \<and> d \<le> available"
    using ov s(3) that by (simp add: reconciled_def)
  show ?thesis using s(3) ov ex by blast
qed

theorem compute_step_overflow_witness:
  "\<exists>r. compute_step pair_helpers two_cells \<lparr>table = [[7, 1]]\<rparr> PROBABILITY open_land [0] 1 0
          (\<lambda>_. 1 / 4) = Some (Inr r) \<and> res_n_done r = 2 \<and> res_n_to_convert r = 1 \<and>
        nth_chk (res_patch_overflow r) 0 = Inr 1"
proof -
  obtain r where r: "compute_step pair_helpers two_cells \<lparr>table = [[7, 1]]\<rparr> PROBABILITY
        open_land [0] 1 0 (\<lambda>_. 1 / 4) = Some (Inr r)" "res_n_done r = 2" "res_n_to_convert r = 1"
    using two_cells_run by blast
  have h1: "nth_chk (table \<lparr>table = [[7, 1]]\<rparr>) 0 = Inr [7, 1]"
    and h2: "nth_chk [7, 1] 1 = Inr (1::int)"
    and h3: "nth_chk [0] 0 = Inr (0::int)"
    and h4: "nth_chk (num two_cells) 0 = Inr 2"
    by (simp_all add: nth_chk_def two_cells_def)
  have "nth_chk (res_patch_overflow r) 0 =
           Inr (snd (reconciled 1 0) + (res_n_done r - res_n_to_convert r))"
    using compute_step_overflow[OF r(1) h1 h2 h3 h4] by simp
  then have "nth_chk (res_patch_overflow r) 0 = Inr 1"
    using r(2,3) by (simp add: reconciled_def)
  then show ?thesis using r by blast
qed

text \<open>Forced acceptance makes no draw.\<close>

lemma challenge_and_grow_forced:
  "challenge_and_grow H step True seed_row seed_col s =
     (let (patch_size, g3) = get_patch_size H (gen s);
          ((found, added_ids), segments', g4) =
             grow_patch H seed_row seed_col patch_size step (segments s) g3
      in bind_e (foldE (\<lambda>i sg.
                   bind_e (nth_chk added_ids i) (\<lambda>ident.
                     let (row, col) = get_xy_from_idx H ident (Rast_window_cols H)
                     in Inr (update_development_pressure_precomputed H row col sg)))
                 (map int [0..<nat found]) segments')
           (\<lambda>segments''.
              Inr (s\<lparr>segments := segments'', gen := g4, n_done := n_done s + found\<rparr>)))"
  by (simp add: challenge_and_grow_def)





lemma shortfall_can_overshoot:
  "\<exists>r. compute_step pair_helpers one_cell \<lparr>table = [[5]]\<rparr> PROBABILITY open_land [0] 0 0
          (\<lambda>_. 9 / 10) = Some (Inr r) \<and> res_n_to_convert r = 1 \<and> res_n_done r = 2"
  apply (simp add: compute_step_def nth_chk_def bind_e_def one_cell_def)
  apply (subst step_loop.simps)
  apply (simp add: step_body_def get_seed_def find_probable_seed_def G_drand48_def nth_chk_def
      bind_e_def cell_at_def cell_put_def upd_chk_def array_of_def cell_def pair_helpers_def
      row_major_def open_land_def challenge_and_grow_def set_developed_def Let_def numeral_2_eq_2)
  apply (subst step_loop.simps)
  apply (simp add: upd_chk_def)
  done




subsection \<open>Writing a snapshot\<close>

lemma fold_output_cell_step:
  "k \<le> length r \<Longrightarrow>
   length (fold (output_cell_step seg u d row) [0..<k] r) = length r \<and>
   (\<forall>j < length r. fold (output_cell_step seg u d row) [0..<k] r ! j =
     (if j < k then written (r ! j) u d (seg row (int j)) else r ! j))"
proof (induction k)
  case 0
  then show ?case by simp
next
  case (Suc k)
  define r' where "r' = fold (output_cell_step seg u d row) [0..<k] r"
  have len: "length r' = length r"
    and nth: "\<And>j. j < length r \<Longrightarrow>
        r' ! j = (if j < k then written (r ! j) u d (seg row (int j)) else r ! j)"
    using Suc by (simp_all add: r'_def)
  have step: "fold (output_cell_step seg u d row) [0..<Suc k] r = output_cell_step seg u d row k r'"
    by (simp add: r'_def)
  have kl: "k < length r'" using Suc.prems len by simp
  have len': "length (output_cell_step seg u d row k r') = length r"
    by (simp add: output_cell_step_def len split: option.splits)
  have nth': "output_cell_step seg u d row k r' ! j =
      (if j < Suc k then written (r ! j) u d (seg row (int j)) else r ! j)"
    if j: "j < length r" for j
  proof (cases "j = k")
    case True
    then show ?thesis
      using kl nth[of k] j
      by (simp add: output_cell_step_def written_def split: option.splits)
  next
    case False
    then have "output_cell_step seg u d row k r' ! j = r' ! j"
      by (simp add: output_cell_step_def split: option.splits)
    then show ?thesis using nth[OF j] False by auto
  qed
  show ?case unfolding step using len' nth' by blast
qed

lemma output_developed_step_cell:
  assumes "row < nat rows" "col < nat cols"
  shows "output_developed_step seg rows cols u d ! row ! col =
         written None u d (seg (int row) (int col))"
proof -
  have "output_developed_step seg rows cols u d ! row =
      fold (output_cell_step seg u d (int row)) [0..<nat cols] (replicate (nat cols) None)"
    using assms by (simp add: output_developed_step_def)
  then show ?thesis
    using fold_output_cell_step[of "nat cols" "replicate (nat cols) None" seg u d "int row"] assms
    by simp
qed

text \<open>
  Claim C10. \<open>output_developed_step_cell\<close> above gives the value of every cell: a null
  cell stays null, an undeveloped cell is null under \<^verbatim>\<open>undeveloped_as_null\<close>, and every
  other value is written as 1 under \<^verbatim>\<open>developed_as_one\<close> and as itself otherwise. The
  replacement by 1 is not restricted to developed cells: without
  \<^verbatim>\<open>undeveloped_as_null\<close> and with \<^verbatim>\<open>developed_as_one\<close> an undeveloped cell (-1) is written
  as 1, like a developed one.
\<close>

theorem output_undeveloped_as_one:
  "output_developed_step (seg_developed open_land) 1 1 False True = [[Some 1]]"
  by (simp add: output_developed_step_def output_cell_step_def open_land_def)

end
